theory Spec2Isabelle
  imports Complex_Main
begin

section \<open>Augmented Random Search for BipedalWalker: the notebook's classes\<close>

text \<open>
  The development embeds the classes of \<^verbatim>\<open>bipedal_walker.ipynb\<close>:
  \<^verbatim>\<open>Hp\<close>, \<^verbatim>\<open>Normalizer\<close>, \<^verbatim>\<open>Policy\<close> and \<^verbatim>\<open>ArsAgent\<close>.

  Numbers. A numpy \<^verbatim>\<open>float64\<close> is read as an exact \<^typ>\<open>real\<close>: there is no
  rounding and no overflow. The one way the code leaves the finite numbers is a division
  by zero or a square root of a negative number. numpy does not raise there: it prints a
  RuntimeWarning and stores \<^verbatim>\<open>inf\<close> or \<^verbatim>\<open>nan\<close>. HOL's \<open>x / 0 = 0\<close> would hide
  that, so every division of the source is written with its zero test, and the result
  \<open>Inl NonFinite\<close> says that a non-finite value has been produced; the model follows the
  run no further.

  Arrays. A one-dimensional array is a list, a two-dimensional array a list of rows.
  An elementwise operation on arrays of different shapes is \<open>Inl ValueError\<close>
  (numpy's broadcasting of an axis of length one is not represented: all statements below
  are about operands of equal shape).
\<close>

datatype fault =
    ValueError
  | TypeError
  | IndexError
  | AssertionError
  | ZeroDivisionError
  | NonFinite

type_synonym vec = "real list"
type_synonym mat = "real list list"

definition and_then :: "fault + 'a \<Rightarrow> ('a \<Rightarrow> fault + 'b) \<Rightarrow> fault + 'b" where
  "and_then m f = (case m of Inl e \<Rightarrow> Inl e | Inr a \<Rightarrow> f a)"

subsection \<open>Elementwise operations of numpy on one-dimensional arrays\<close>

definition vec_sub :: "vec \<Rightarrow> vec \<Rightarrow> fault + vec" where
  "vec_sub a b = (if length a = length b then Inr (map2 (-) a b) else Inl ValueError)"

definition vec_add :: "vec \<Rightarrow> vec \<Rightarrow> fault + vec" where
  "vec_add a b = (if length a = length b then Inr (map2 (+) a b) else Inl ValueError)"

definition vec_mul :: "vec \<Rightarrow> vec \<Rightarrow> fault + vec" where
  "vec_mul a b = (if length a = length b then Inr (map2 (*) a b) else Inl ValueError)"

definition vec_div :: "vec \<Rightarrow> vec \<Rightarrow> fault + vec" where
  "vec_div a b =
     (if length a \<noteq> length b then Inl ValueError
      else if 0 \<in> set b then Inl NonFinite
      else Inr (map2 (/) a b))"

definition vec_sqrt :: "vec \<Rightarrow> fault + vec" where
  "vec_sqrt a = (if list_ex (\<lambda>v. v < 0) a then Inl NonFinite else Inr (map sqrt a))"

subsection \<open>Normalizer\<close>

record Normalizer =
  n :: vec
  mean :: vec
  mean_diff :: vec
  variance :: vec

text \<open>\<^verbatim>\<open>Normalizer.__init__\<close>: four arrays of zeros.\<close>

definition Normalizer_init :: "nat \<Rightarrow> Normalizer" where
  "Normalizer_init num_inputs =
     \<lparr> n = replicate num_inputs 0,
       mean = replicate num_inputs 0,
       mean_diff = replicate num_inputs 0,
       variance = replicate num_inputs 0 \<rparr>"

text \<open>
  \<^verbatim>\<open>Normalizer.observe\<close>, line by line:
  \<^verbatim>\<open>self.n += 1.0\<close>,
  \<^verbatim>\<open>last_mean = self.mean.copy()\<close>,
  \<^verbatim>\<open>self.mean += (x - self.mean) / self.n\<close>,
  \<^verbatim>\<open>self.mean_diff += (x - last_mean) * (x - self.mean)\<close>,
  \<^verbatim>\<open>self.variance = (self.mean_diff / self.n).clip(min=1e-2)\<close>.
\<close>

definition observe :: "Normalizer \<Rightarrow> vec \<Rightarrow> fault + Normalizer" where
  "observe N x =
     (let n' = map (\<lambda>c. c + 1) (n N);
          last_mean = mean N
      in and_then (vec_sub x (mean N)) (\<lambda>d.
         and_then (vec_div d n') (\<lambda>q.
         and_then (vec_add (mean N) q) (\<lambda>mean'.
         and_then (vec_sub x last_mean) (\<lambda>a.
         and_then (vec_sub x mean') (\<lambda>b.
         and_then (vec_mul a b) (\<lambda>p.
         and_then (vec_add (mean_diff N) p) (\<lambda>mean_diff'.
         and_then (vec_div mean_diff' n') (\<lambda>v.
         Inr \<lparr> n = n', mean = mean', mean_diff = mean_diff',
               variance = map (\<lambda>u. max u (1 / 100)) v \<rparr>)))))))))"

text \<open>
  \<^verbatim>\<open>Normalizer.normalize\<close>:
  \<^verbatim>\<open>(inputs - self.mean) / np.sqrt(self.variance)\<close>.
\<close>

definition normalize_obs :: "Normalizer \<Rightarrow> vec \<Rightarrow> fault + vec" where
  "normalize_obs N inputs =
     and_then (vec_sqrt (variance N)) (\<lambda>obs_std.
     and_then (vec_sub inputs (mean N)) (\<lambda>d.
     vec_div d obs_std))"

text \<open>A sequence of \<^verbatim>\<open>observe\<close> calls on one normalizer, in order.\<close>

fun observe_all :: "Normalizer \<Rightarrow> vec list \<Rightarrow> fault + Normalizer" where
  "observe_all N [] = Inr N"
| "observe_all N (x # xs) = and_then (observe N x) (\<lambda>N'. observe_all N' xs)"

subsection \<open>Hyperparameters\<close>

record Hp =
  num_steps :: int
  episode_length :: int
  num_deltas :: int
  num_best_deltas :: int
  record_every :: int
  env_name :: string
  seed :: int
  noise :: real
  alpha :: real

text \<open>\<^verbatim>\<open>Hp.__init__\<close>, with its \<^verbatim>\<open>assert self.num_best_deltas <= self.num_deltas\<close>.\<close>

definition Hp_init ::
  "int \<Rightarrow> int \<Rightarrow> int \<Rightarrow> int \<Rightarrow> int \<Rightarrow> string \<Rightarrow> int \<Rightarrow> real \<Rightarrow> real \<Rightarrow> fault + Hp" where
  "Hp_init steps len deltas best every name sd ns al =
     (if best \<le> deltas
      then Inr \<lparr> num_steps = steps, episode_length = len, num_deltas = deltas,
                 num_best_deltas = best, record_every = every, env_name = name,
                 seed = sd, noise = ns, alpha = al \<rparr>
      else Inl AssertionError)"

text \<open>The default arguments of \<^verbatim>\<open>Hp.__init__\<close>.\<close>

definition default_Hp :: Hp where
  "default_Hp =
     \<lparr> num_steps = 1500, episode_length = 3000, num_deltas = 20, num_best_deltas = 20,
       record_every = 100, env_name = ''BipedalWalker-v2'', seed = 42,
       noise = 3 / 100, alpha = 2 / 100 \<rparr>"

subsection \<open>Operations of numpy on two-dimensional arrays\<close>

definition mat_add :: "mat \<Rightarrow> mat \<Rightarrow> fault + mat" where
  "mat_add A B =
     (if map length A = map length B then Inr (map2 (map2 (+)) A B) else Inl ValueError)"

definition mat_sub :: "mat \<Rightarrow> mat \<Rightarrow> fault + mat" where
  "mat_sub A B =
     (if map length A = map length B then Inr (map2 (map2 (-)) A B) else Inl ValueError)"

definition mat_scale :: "real \<Rightarrow> mat \<Rightarrow> mat" where
  "mat_scale c A = map (map (\<lambda>a. c * a)) A"

definition zeros_like :: "mat \<Rightarrow> mat" where
  "zeros_like A = map (map (\<lambda>a. 0)) A"

text \<open>\<^verbatim>\<open>A.dot(v)\<close> for a two-dimensional \<open>A\<close> and a one-dimensional \<open>v\<close>.\<close>

definition mat_dot :: "mat \<Rightarrow> vec \<Rightarrow> fault + vec" where
  "mat_dot A v =
     (if list_all (\<lambda>row. length row = length v) A
      then Inr (map (\<lambda>row. sum_list (map2 (*) row v)) A)
      else Inl ValueError)"

text \<open>A scalar division of \<^verbatim>\<open>float64\<close> values.\<close>

definition float_div :: "real \<Rightarrow> real \<Rightarrow> fault + real" where
  "float_div a b = (if b = 0 then Inl NonFinite else Inr (a / b))"

subsection \<open>Policy\<close>

datatype direction = Plus | Minus

record Policy =
  theta :: mat
  policy_hp :: Hp

text \<open>
  \<^verbatim>\<open>Policy.__init__\<close>: \<^verbatim>\<open>np.zeros((output_size, input_size))\<close>. The field
  \<^verbatim>\<open>self.hp\<close> of the policy is \<open>policy_hp\<close>.
\<close>

definition Policy_init :: "nat \<Rightarrow> nat \<Rightarrow> Hp \<Rightarrow> Policy" where
  "Policy_init input_size output_size h =
     \<lparr> theta = replicate output_size (replicate input_size 0), policy_hp = h \<rparr>"

text \<open>
  \<^verbatim>\<open>Policy.evaluate(input, delta, direction)\<close>. The source compares \<^verbatim>\<open>direction\<close>
  with \<^verbatim>\<open>None\<close>, \<^verbatim>\<open>'+'\<close> and \<^verbatim>\<open>'-'\<close>, the only values its callers pass;
  \<open>Plus\<close> is \<^verbatim>\<open>'+'\<close> and \<open>Minus\<close> is \<^verbatim>\<open>'-'\<close>. With a direction and no delta,
  \<^verbatim>\<open>self.hp.noise * None\<close> raises TypeError.
\<close>

definition evaluate :: "Policy \<Rightarrow> vec \<Rightarrow> mat option \<Rightarrow> direction option \<Rightarrow> fault + vec" where
  "evaluate P input delta direction =
     (case direction of
        None \<Rightarrow> mat_dot (theta P) input
      | Some Plus \<Rightarrow>
          (case delta of
             None \<Rightarrow> Inl TypeError
           | Some D \<Rightarrow>
               and_then (mat_add (theta P) (mat_scale (noise (policy_hp P)) D))
                 (\<lambda>W. mat_dot W input))
      | Some Minus \<Rightarrow>
          (case delta of
             None \<Rightarrow> Inl TypeError
           | Some D \<Rightarrow>
               and_then (mat_sub (theta P) (mat_scale (noise (policy_hp P)) D))
                 (\<lambda>W. mat_dot W input)))"

text \<open>
  \<^verbatim>\<open>Policy.sample_deltas\<close>. The draws of \<^verbatim>\<open>np.random.randn\<close> are a parameter:
  \<open>rnd k i j\<close> is entry \<open>(i, j)\<close> of the \<open>k\<close>-th matrix drawn. Every matrix has the shape
  of \<open>theta\<close>.
\<close>

definition randn_like :: "(nat \<Rightarrow> nat \<Rightarrow> real) \<Rightarrow> mat \<Rightarrow> mat" where
  "randn_like draw A =
     map (\<lambda>i. map (\<lambda>j. draw i j) [0..<length (A ! i)]) [0..<length A]"

definition sample_deltas :: "Policy \<Rightarrow> (nat \<Rightarrow> nat \<Rightarrow> nat \<Rightarrow> real) \<Rightarrow> mat list" where
  "sample_deltas P rnd =
     map (\<lambda>k. randn_like (rnd k) (theta P)) [0..<nat (num_deltas (policy_hp P))]"

text \<open>
  \<^verbatim>\<open>Policy.update\<close>: the loop \<^verbatim>\<open>step += (r_pos - r_neg) * delta\<close> from
  \<^verbatim>\<open>np.zeros(self.theta.shape)\<close>, then
  \<^verbatim>\<open>self.theta += self.hp.alpha / (self.hp.num_best_deltas * sigma_rewards) * step\<close>.
  With a zero divisor numpy's \<^verbatim>\<open>float64\<close> division gives \<^verbatim>\<open>inf\<close> or \<^verbatim>\<open>nan\<close>
  (a Python \<^verbatim>\<open>float\<close> would raise ZeroDivisionError), and the product with \<^verbatim>\<open>step\<close>
  and the sum with \<^verbatim>\<open>theta\<close> make every weight non-finite: \<open>Inl NonFinite\<close>.
\<close>

fun accumulate_step :: "mat \<Rightarrow> (real \<times> real \<times> mat) list \<Rightarrow> fault + mat" where
  "accumulate_step acc [] = Inr acc"
| "accumulate_step acc ((r_pos, r_neg, delta) # rollouts) =
     and_then (mat_add acc (mat_scale (r_pos - r_neg) delta))
       (\<lambda>acc'. accumulate_step acc' rollouts)"

definition update :: "Policy \<Rightarrow> (real \<times> real \<times> mat) list \<Rightarrow> real \<Rightarrow> fault + Policy" where
  "update P rollouts sigma_rewards =
     and_then (accumulate_step (zeros_like (theta P)) rollouts) (\<lambda>stp.
     and_then (float_div (alpha (policy_hp P))
                 (of_int (num_best_deltas (policy_hp P)) * sigma_rewards)) (\<lambda>c.
     and_then (mat_add (theta P) (mat_scale c stp)) (\<lambda>theta'.
     Inr (P\<lparr>theta := theta'\<rparr>))))"

subsection \<open>The environment\<close>

text \<open>
  The gym environment is outside the repository. It is an object with a hidden state
  \<open>'s\<close>: \<^verbatim>\<open>reset()\<close> returns an observation, \<^verbatim>\<open>step(action)\<close> returns an observation,
  a reward and the \<^verbatim>\<open>done\<close> flag (its fourth component is dropped by the caller), and
  both change the hidden state. \<^verbatim>\<open>env.spec.timestep_limit\<close> is an integer or
  \<^verbatim>\<open>None\<close>.
\<close>

record 's Env =
  env_reset :: "'s \<Rightarrow> vec \<times> 's"
  env_step :: "'s \<Rightarrow> vec \<Rightarrow> (vec \<times> real \<times> bool) \<times> 's"
  timestep_limit :: "int option"
  observation_size :: nat
  action_size :: nat

subsection \<open>ArsAgent\<close>

record 's ArsAgent =
  hp :: Hp
  env :: "'s Env"
  env_state :: 's
  input_size :: nat
  output_size :: nat
  normalizer :: Normalizer
  policy :: Policy
  record_video :: bool

text \<open>
  Python's \<^verbatim>\<open>a or b\<close> where \<open>a\<close> is \<^verbatim>\<open>None\<close> or a number: \<open>b\<close> when \<open>a\<close> is
  \<^verbatim>\<open>None\<close> or zero, else \<open>a\<close>.
\<close>

definition py_or :: "'a::zero option \<Rightarrow> 'a \<Rightarrow> 'a" where
  "py_or a b = (case a of None \<Rightarrow> b | Some v \<Rightarrow> if v = 0 then b else v)"

text \<open>
  \<^verbatim>\<open>ArsAgent.__init__\<close>, for a given \<^verbatim>\<open>hp\<close> and the environment that
  \<^verbatim>\<open>gym.make\<close> returned, in its initial hidden state. The line
  \<^verbatim>\<open>self.hp.episode_length = self.env.spec.timestep_limit or self.hp.episode_length\<close>
  overwrites the configured value; a normalizer or a policy that is passed in is kept
  (an object is never falsy). A policy made here gets the \<^verbatim>\<open>hp\<close> object after that
  assignment. The seeding of numpy's random stream and the video monitor are left out:
  the draws are a parameter of \<open>sample_deltas\<close>, and the monitor only records.
\<close>

definition ArsAgent_init ::
  "Hp \<Rightarrow> 's Env \<Rightarrow> 's \<Rightarrow> nat option \<Rightarrow> nat option \<Rightarrow> Normalizer option \<Rightarrow> Policy option
     \<Rightarrow> 's ArsAgent" where
  "ArsAgent_init h e s in_size out_size nrm pol =
     (let h' = h\<lparr>episode_length := py_or (timestep_limit e) (episode_length h)\<rparr>;
          isz = py_or in_size (observation_size e);
          osz = py_or out_size (action_size e)
      in \<lparr> hp = h', env = e, env_state = s, input_size = isz, output_size = osz,
            normalizer = (case nrm of None \<Rightarrow> Normalizer_init isz | Some N \<Rightarrow> N),
            policy = (case pol of None \<Rightarrow> Policy_init isz osz h' | Some P \<Rightarrow> P),
            record_video = False \<rparr>)"

text \<open>
  The local variables of \<^verbatim>\<open>ArsAgent.explore\<close>, with the agent whose normalizer and
  environment the loop changes. \<^verbatim>\<open>num_plays\<close> is a float that only ever holds a
  count.
\<close>

record 's Explore =
  agent :: "'s ArsAgent"
  state :: vec
  is_done :: bool
  num_plays :: nat
  sum_rewards :: real

text \<open>
  One pass through the body of the \<^verbatim>\<open>while\<close> loop:
  \<^verbatim>\<open>self.normalizer.observe(state)\<close>,
  \<^verbatim>\<open>state = self.normalizer.normalize(state)\<close>,
  \<^verbatim>\<open>action = self.policy.evaluate(state, delta, direction)\<close>,
  \<^verbatim>\<open>state, reward, done, _ = self.env.step(action)\<close>,
  \<^verbatim>\<open>reward = max(min(reward, 1), -1)\<close>,
  \<^verbatim>\<open>sum_rewards += reward\<close>, \<^verbatim>\<open>num_plays += 1\<close>.
\<close>

definition clamp_reward :: "real \<Rightarrow> real" where
  "clamp_reward reward = max (min reward 1) (- 1)"

definition explore_body ::
  "mat option \<Rightarrow> direction option \<Rightarrow> 's Explore \<Rightarrow> fault + 's Explore" where
  "explore_body delta direction V =
     (let A = agent V in
      and_then (observe (normalizer A) (state V)) (\<lambda>N'.
      and_then (normalize_obs N' (state V)) (\<lambda>st.
      and_then (evaluate (policy A) st delta direction) (\<lambda>action.
      (case env_step (env A) (env_state A) action of
         ((state', reward, done'), s') \<Rightarrow>
           Inr \<lparr> agent = A\<lparr>env_state := s', normalizer := N'\<rparr>,
                 state = state',
                 is_done = done',
                 num_plays = num_plays V + 1,
                 sum_rewards = sum_rewards V + clamp_reward reward \<rparr>)))))"

text \<open>
  \<^verbatim>\<open>while not done and num_plays < self.hp.episode_length\<close>. The loop ends: the body
  adds one to \<^verbatim>\<open>num_plays\<close> and leaves \<^verbatim>\<open>self.hp\<close> alone.
\<close>

function explore_loop ::
  "mat option \<Rightarrow> direction option \<Rightarrow> 's Explore \<Rightarrow> fault + 's Explore" where
  "explore_loop delta direction V =
     (if \<not> is_done V \<and> int (num_plays V) < episode_length (hp (agent V))
      then (case explore_body delta direction V of
              Inl e \<Rightarrow> Inl e
            | Inr V' \<Rightarrow> explore_loop delta direction V')
      else Inr V)"
  by pat_completeness auto

lemma and_then_Inr [simp]: "and_then (Inr a) f = f a"
  by (simp add: and_then_def)

lemma and_then_Inl [simp]: "and_then (Inl e) f = Inl e"
  by (simp add: and_then_def)

lemma and_then_eq_Inr:
  "and_then m f = Inr b \<longleftrightarrow> (\<exists>a. m = Inr a \<and> f a = Inr b)"
  by (cases m) simp_all

lemma explore_body_frame:
  assumes "explore_body delta direction V = Inr V'"
  shows "num_plays V' = Suc (num_plays V)"
    and "hp (agent V') = hp (agent V)"
    and "policy (agent V') = policy (agent V)"
    and "env (agent V') = env (agent V)"
  using assms
  by (auto simp: explore_body_def Let_def and_then_eq_Inr split_def)

termination explore_loop
proof (relation
    "measure (\<lambda>(delta, direction, V). nat (episode_length (hp (agent V)) - int (num_plays V)))")
  show "wf (measure (\<lambda>(delta, direction, V).
      nat (episode_length (hp (agent V)) - int (num_plays V))))"
    by simp
next
  fix delta :: "mat option" and direction :: "direction option" and V V' :: "'a Explore"
  assume "\<not> is_done V \<and> int (num_plays V) < episode_length (hp (agent V))"
    and "explore_body delta direction V = Inr V'"
  then show "((delta, direction, V'), (delta, direction, V))
       \<in> measure (\<lambda>(delta, direction, V).
            nat (episode_length (hp (agent V)) - int (num_plays V)))"
    by (simp add: explore_body_frame)
qed

declare explore_loop.simps [simp del]

text \<open>
  \<^verbatim>\<open>ArsAgent.explore(direction, delta)\<close>: \<^verbatim>\<open>state = self.env.reset()\<close>, the loop,
  \<^verbatim>\<open>return sum_rewards\<close>. The agent is returned too: the rollout has changed its
  normalizer and its environment.
\<close>

definition explore_start :: "'s ArsAgent \<Rightarrow> 's Explore" where
  "explore_start A =
     (case env_reset (env A) (env_state A) of
        (state0, s0) \<Rightarrow>
          \<lparr> agent = A\<lparr>env_state := s0\<rparr>, state = state0, is_done = False,
            num_plays = 0, sum_rewards = 0 \<rparr>)"

definition explore ::
  "'s ArsAgent \<Rightarrow> direction option \<Rightarrow> mat option \<Rightarrow> fault + (real \<times> 's ArsAgent)" where
  "explore A direction delta =
     and_then (explore_loop delta direction (explore_start A))
       (\<lambda>V. Inr (sum_rewards V, agent V))"

text \<open>
  The rewards as the environment returned them, one per pass through the loop of one
  rollout, in order: \<open>env_reward\<close> is the variable \<^verbatim>\<open>reward\<close> right after
  \<^verbatim>\<open>self.env.step(action)\<close>. These observe the run; the source keeps only the sum.
\<close>

definition env_reward :: "mat option \<Rightarrow> direction option \<Rightarrow> 's Explore \<Rightarrow> fault + real" where
  "env_reward delta direction V =
     (let A = agent V in
      and_then (observe (normalizer A) (state V)) (\<lambda>N'.
      and_then (normalize_obs N' (state V)) (\<lambda>st.
      and_then (evaluate (policy A) st delta direction) (\<lambda>action.
      (case env_step (env A) (env_state A) action of
         ((state', reward, done'), s') \<Rightarrow> Inr reward)))))"

function env_rewards :: "mat option \<Rightarrow> direction option \<Rightarrow> 's Explore \<Rightarrow> real list" where
  "env_rewards delta direction V =
     (if \<not> is_done V \<and> int (num_plays V) < episode_length (hp (agent V))
      then (case explore_body delta direction V of
              Inl e \<Rightarrow> []
            | Inr V' \<Rightarrow>
                (case env_reward delta direction V of
                   Inl e \<Rightarrow> []
                 | Inr reward \<Rightarrow> reward # env_rewards delta direction V'))
      else [])"
  by pat_completeness auto

termination env_rewards
proof (relation
    "measure (\<lambda>(delta, direction, V). nat (episode_length (hp (agent V)) - int (num_plays V)))")
  show "wf (measure (\<lambda>(delta, direction, V).
      nat (episode_length (hp (agent V)) - int (num_plays V))))"
    by simp
next
  fix delta :: "mat option" and direction :: "direction option" and V V' :: "'a Explore"
    and reward :: real
  assume "\<not> is_done V \<and> int (num_plays V) < episode_length (hp (agent V))"
    and "explore_body delta direction V = Inr V'"
  then show "((delta, direction, V'), (delta, direction, V))
       \<in> measure (\<lambda>(delta, direction, V).
            nat (episode_length (hp (agent V)) - int (num_plays V)))"
    by (simp add: explore_body_frame)
qed

declare env_rewards.simps [simp del]

subsection \<open>One training iteration\<close>

text \<open>
  The loop \<^verbatim>\<open>for k in range(self.hp.num_deltas)\<close> of \<^verbatim>\<open>train\<close>: two rollouts per
  index, \<^verbatim>\<open>'+'\<close> first. \<^verbatim>\<open>deltas[k]\<close> raises IndexError past the end of the list.
\<close>

fun run_deltas ::
  "'s ArsAgent \<Rightarrow> mat list \<Rightarrow> nat list \<Rightarrow> fault + (real list \<times> real list \<times> 's ArsAgent)" where
  "run_deltas A deltas [] = Inr ([], [], A)"
| "run_deltas A deltas (k # ks) =
     (if length deltas \<le> k then Inl IndexError
      else
        and_then (explore A (Some Plus) (Some (deltas ! k))) (\<lambda>(r_pos, A1).
        and_then (explore A1 (Some Minus) (Some (deltas ! k))) (\<lambda>(r_neg, A2).
        and_then (run_deltas A2 deltas ks) (\<lambda>(pos_rewards, neg_rewards, A3).
        Inr (r_pos # pos_rewards, r_neg # neg_rewards, A3)))))"

text \<open>
  \<^verbatim>\<open>np.array(xs).std()\<close>: the population standard deviation; of an empty array it is
  \<^verbatim>\<open>nan\<close>. This is the exact value. For identical values it is 0, where
  \<^verbatim>\<open>float64\<close> can round the mean and return a number of the order of \<open>1e-17\<close>
  instead (six values \<open>0.1\<close>); for values that are all 0 the \<^verbatim>\<open>float64\<close> result is
  exactly 0 as well. No statement below derives a zero \<^verbatim>\<open>sigma_rewards\<close> from equal
  rewards: where a zero matters it is taken as given, or computed from rewards 0.
\<close>

definition np_std :: "real list \<Rightarrow> fault + real" where
  "np_std xs =
     (if xs = [] then Inl NonFinite
      else
        (let m = sum_list xs / real (length xs)
         in Inr (sqrt (sum_list (map (\<lambda>x. (x - m) ^ 2) xs) / real (length xs)))))"

text \<open>
  \<^verbatim>\<open>sorted(xs, key=f, reverse=True)\<close>: a stable sort into descending order. CPython
  reverses the list, sorts it stably into ascending order and reverses it again, so
  that elements with equal keys keep their order. \<^verbatim>\<open>xs[:k]\<close> counts a negative \<open>k\<close>
  from the end.
\<close>

definition sorted_reverse :: "('a \<Rightarrow> real) \<Rightarrow> 'a list \<Rightarrow> 'a list" where
  "sorted_reverse f xs = rev (sort_key f (rev xs))"

definition slice_to :: "int \<Rightarrow> 'a list \<Rightarrow> 'a list" where
  "slice_to k xs = (if 0 \<le> k then take (nat k) xs else take (length xs - nat (- k)) xs)"

text \<open>
  \<^verbatim>\<open>scores = {k: max(r_pos, r_neg) for k, (r_pos, r_neg) in enumerate(zip(...))}\<close> and
  \<^verbatim>\<open>order = sorted(scores.keys(), key=lambda x: scores[x], reverse=True)[:num_best_deltas]\<close>.
  The keys of the dictionary come in the order they were inserted: \<open>0, 1, 2, ...\<close>.
\<close>

definition scores :: "real list \<Rightarrow> real list \<Rightarrow> real list" where
  "scores pos_rewards neg_rewards = map2 max pos_rewards neg_rewards"

definition order :: "int \<Rightarrow> real list \<Rightarrow> real list \<Rightarrow> nat list" where
  "order num_best pos_rewards neg_rewards =
     slice_to num_best
       (sorted_reverse (\<lambda>x. scores pos_rewards neg_rewards ! x)
          [0..<length (scores pos_rewards neg_rewards)])"

text \<open>
  The body of the loop of \<^verbatim>\<open>ArsAgent.train\<close> for iteration \<open>stp\<close>, with the draws
  \<open>rnd\<close> of this iteration, in two parts. \<open>update_and_evaluate\<close> is the body from the
  line after \<^verbatim>\<open>sigma_rewards = np.array(pos_rewards + neg_rewards).std()\<close> on, for
  whatever value \<^verbatim>\<open>sigma_rewards\<close> has: the scores, \<^verbatim>\<open>order\<close>, \<^verbatim>\<open>rollouts\<close>,
  \<^verbatim>\<open>self.policy.update(rollouts, sigma_rewards)\<close> and the evaluation rollout.
  \<^verbatim>\<open>step % self.hp.record_every\<close> raises ZeroDivisionError for a zero
  \<^verbatim>\<open>record_every\<close>. The evaluation reward is returned with the agent; \<^verbatim>\<open>train\<close>
  appends it to \<^verbatim>\<open>REWARD_HISTORY\<close>.
\<close>

definition update_and_evaluate ::
  "'s ArsAgent \<Rightarrow> mat list \<Rightarrow> real list \<Rightarrow> real list \<Rightarrow> real \<Rightarrow> int
     \<Rightarrow> fault + (real \<times> 's ArsAgent)" where
  "update_and_evaluate A1 deltas pos_rewards neg_rewards sigma_rewards stp =
     (let rollouts = map (\<lambda>k. (pos_rewards ! k, neg_rewards ! k, deltas ! k))
                       (order (num_best_deltas (hp A1)) pos_rewards neg_rewards) in
      and_then (update (policy A1) rollouts sigma_rewards) (\<lambda>P'.
      if record_every (hp A1) = 0 then Inl ZeroDivisionError
      else
        (let A2 = A1\<lparr>policy := P',
                     record_video :=
                       (if stp mod record_every (hp A1) = 0 then True
                        else record_video A1)\<rparr> in
         and_then (explore A2 None None) (\<lambda>(reward_evaluation, A3).
         Inr (reward_evaluation, A3\<lparr>record_video := False\<rparr>)))))"

definition train_step ::
  "'s ArsAgent \<Rightarrow> (nat \<Rightarrow> nat \<Rightarrow> nat \<Rightarrow> real) \<Rightarrow> int \<Rightarrow> fault + (real \<times> 's ArsAgent)" where
  "train_step A rnd stp =
     (let deltas = sample_deltas (policy A) rnd in
      and_then (run_deltas A deltas [0..<nat (num_deltas (hp A))])
        (\<lambda>(pos_rewards, neg_rewards, A1).
      and_then (np_std (pos_rewards @ neg_rewards)) (\<lambda>sigma_rewards.
      update_and_evaluate A1 deltas pos_rewards neg_rewards sigma_rewards stp)))"

text \<open>
  \<^verbatim>\<open>ArsAgent.train\<close>: \<^verbatim>\<open>for step in range(self.hp.num_steps)\<close>, from a given
  \<^verbatim>\<open>REWARD_HISTORY\<close>; \<open>rnd stp\<close> are the draws of iteration \<open>stp\<close>.
\<close>

fun train_loop ::
  "'s ArsAgent \<Rightarrow> (nat \<Rightarrow> nat \<Rightarrow> nat \<Rightarrow> nat \<Rightarrow> real) \<Rightarrow> nat list \<Rightarrow> real list
     \<Rightarrow> fault + (real list \<times> 's ArsAgent)" where
  "train_loop A rnd [] history = Inr (history, A)"
| "train_loop A rnd (stp # stps) history =
     and_then (train_step A (rnd stp) (int stp)) (\<lambda>(reward_evaluation, A').
     train_loop A' rnd stps (history @ [reward_evaluation]))"

definition train ::
  "'s ArsAgent \<Rightarrow> (nat \<Rightarrow> nat \<Rightarrow> nat \<Rightarrow> nat \<Rightarrow> real) \<Rightarrow> real list
     \<Rightarrow> fault + (real list \<times> 's ArsAgent)" where
  "train A rnd history = train_loop A rnd [0..<nat (num_steps (hp A))] history"

subsection \<open>Ranking\<close>


subsection \<open>A stub environment\<close>

text \<open>
  An environment for the concrete runs below: observations are \<open>[0]\<close>, every step
  returns the same reward and the same \<^verbatim>\<open>done\<close> flag; and the agent that
  \<^verbatim>\<open>ArsAgent(hp=h)\<close> builds on it.
\<close>

definition stub_env :: "real \<Rightarrow> bool \<Rightarrow> int option \<Rightarrow> unit Env" where
  "stub_env reward fin limit =
     \<lparr> env_reset = (\<lambda>s. ([0], s)),
       env_step = (\<lambda>s action. (([0], reward, fin), s)),
       timestep_limit = limit,
       observation_size = 1,
       action_size = 1 \<rparr>"

definition stub_agent :: "Hp \<Rightarrow> real \<Rightarrow> bool \<Rightarrow> int option \<Rightarrow> unit ArsAgent" where
  "stub_agent h reward fin limit =
     ArsAgent_init h (stub_env reward fin limit) () None None None None"

text \<open>
  The agent of the degenerate run: \<^verbatim>\<open>num_deltas = 2\<close>, \<^verbatim>\<open>num_best_deltas = 1\<close>, on
  the stub environment that returns reward 0 on every step and ends after one step.
\<close>

definition degenerate_agent :: "unit ArsAgent" where
  "degenerate_agent =
     stub_agent (default_Hp\<lparr>num_deltas := 2, num_best_deltas := 1\<rparr>) 0 True None"

subsection \<open>Auxiliary predicates\<close>

text \<open>The four arrays of a normalizer have the dimension \<open>d\<close>.\<close>

definition shaped :: "nat \<Rightarrow> Normalizer \<Rightarrow> bool" where
  "shaped d N \<longleftrightarrow>
     length (n N) = d \<and> length (mean N) = d \<and> length (mean_diff N) = d \<and>
     length (variance N) = d"

text \<open>The loop of \<^verbatim>\<open>explore\<close> goes through its body once more.\<close>

definition running :: "'s Explore \<Rightarrow> bool" where
  "running V \<longleftrightarrow> \<not> is_done V \<and> int (num_plays V) < episode_length (hp (agent V))"

section \<open>The normalizer\<close>

lemma shaped_init: "shaped d (Normalizer_init d)"
  by (simp add: shaped_def Normalizer_init_def)

lemma observe_Inr_n:
  assumes "observe N x = Inr N'"
  shows "n N' = map (\<lambda>c. c + 1) (n N)"
  using assms
  by (auto simp: observe_def Let_def and_then_eq_Inr)

lemma observe_Inr_variance:
  assumes "observe N x = Inr N'"
  shows "\<forall>v\<in>set (variance N'). 1 / 100 \<le> v"
proof -
  from assms obtain w where "variance N' = map (\<lambda>u. max u (1 / 100)) w"
    by (auto simp: observe_def Let_def and_then_eq_Inr)
  then show ?thesis
    by (auto simp del: divide_le_eq_numeral1 le_divide_eq_numeral1)
qed

lemma observe_shaped:
  assumes "shaped d N" "length x = d" "- 1 \<notin> set (n N)"
  shows "\<exists>N'. observe N x = Inr N' \<and> shaped d N' \<and>
     n N' = map (\<lambda>c. c + 1) (n N) \<and>
     (\<forall>i<d. mean N' ! i = mean N ! i + (x ! i - mean N ! i) / (n N ! i + 1))"
proof -
  have "0 \<notin> set (map (\<lambda>c. c + 1) (n N))"
    using assms(3) by (auto simp: add_eq_0_iff)
  then show ?thesis
    using assms(1,2)
    by (simp add: observe_def shaped_def vec_sub_def vec_div_def vec_add_def vec_mul_def Let_def)
qed

lemma observe_all_from:
  assumes "shaped d N" "n N = replicate d (real k)" "\<forall>x\<in>set xs. length x = d"
  shows "\<exists>N'. observe_all N xs = Inr N' \<and> shaped d N' \<and>
     n N' = replicate d (real (k + length xs)) \<and>
     (\<forall>i<d. mean N' ! i * real (k + length xs) = mean N ! i * real k + (\<Sum>x\<leftarrow>xs. x ! i))"
  using assms
proof (induction xs arbitrary: N k)
  case Nil
  then show ?case by simp
next
  case (Cons x xs)
  have nm1: "- 1 \<notin> set (n N)"
    using Cons.prems(2) by auto
  from observe_shaped[OF Cons.prems(1) _ nm1, of x] Cons.prems(3)
  obtain M where M: "observe N x = Inr M" "shaped d M"
    "n M = map (\<lambda>c. c + 1) (n N)"
    "\<forall>i<d. mean M ! i = mean N ! i + (x ! i - mean N ! i) / (n N ! i + 1)"
    by auto
  have nM: "n M = replicate d (real (Suc k))"
    using M(3) Cons.prems(2) by (simp add: add.commute)
  have step: "mean M ! i * real (Suc k) = mean N ! i * real k + x ! i" if "i < d" for i
  proof -
    have "mean M ! i = mean N ! i + (x ! i - mean N ! i) / (real k + 1)"
      using M(4) that Cons.prems(2) by simp
    then show ?thesis
      by (simp add: field_simps)
  qed
  from Cons.IH[OF M(2) nM] Cons.prems(3)
  obtain N' where N': "observe_all M xs = Inr N'" "shaped d N'"
    "n N' = replicate d (real (Suc k + length xs))"
    "\<forall>i<d. mean N' ! i * real (Suc k + length xs) = mean M ! i * real (Suc k) + (\<Sum>x\<leftarrow>xs. x ! i)"
    by auto
  show ?case
    using M(1) N' step by (simp add: algebra_simps)
qed

lemma observe_all_fresh:
  assumes "\<forall>x\<in>set xs. length x = d"
  shows "\<exists>M. observe_all (Normalizer_init d) xs = Inr M \<and> shaped d M \<and>
     n M = replicate d (real (length xs)) \<and>
     (\<forall>i<d. mean M ! i * real (length xs) = (\<Sum>x\<leftarrow>xs. x ! i))"
proof -
  have "n (Normalizer_init d) = replicate d (real 0)"
    by (simp add: Normalizer_init_def)
  from observe_all_from[OF shaped_init this assms] show ?thesis
    by simp
qed

lemma observe_all_snoc:
  "observe_all N (xs @ [x]) = and_then (observe_all N xs) (\<lambda>M. observe M x)"
  by (induction xs arbitrary: N) (auto simp: and_then_def split: sum.splits)

lemma observe_all_variance:
  assumes "observe_all N xs = Inr M" "xs \<noteq> []"
  shows "\<forall>v\<in>set (variance M). 1 / 100 \<le> v"
proof -
  from assms(2) obtain ys y where xs: "xs = ys @ [y]"
    by (metis rev_exhaust)
  with assms(1) obtain K where "observe K y = Inr M"
    by (auto simp: observe_all_snoc and_then_eq_Inr)
  then show ?thesis
    by (rule observe_Inr_variance)
qed

text \<open>
  Claim C10. The count \<open>n\<close> is stored per dimension, yet every \<^verbatim>\<open>observe\<close> call that
  returns has added exactly 1 to each of its components, and after \<open>k\<close> calls on a
  freshly constructed normalizer of dimension \<open>d\<close> (with observations of that
  dimension) every component of \<open>n\<close> equals \<open>k\<close>: the count is one number shared by all
  dimensions.
\<close>

theorem n_is_shared_count:
  "(observe N x = Inr N' \<longrightarrow> n N' = map (\<lambda>c. c + 1) (n N)) \<and>
   ((\<forall>y\<in>set xs. length y = d) \<longrightarrow>
      (\<exists>M. observe_all (Normalizer_init d) xs = Inr M \<and>
           n M = replicate d (real (length xs))))"
  using observe_Inr_n[of N x N'] observe_all_fresh[of xs d] by blast

theorem n_is_shared_count_witness:
  "n \<lparr> n = [1], mean = [5], mean_diff = [0], variance = [1 / 100] \<rparr> = [1] \<and>
   (\<exists>M. observe_all (Normalizer_init 2) [[1, 2], [3, 4]] = Inr M \<and> n M = [2, 2])"
proof -
  have o: "observe (Normalizer_init 1) [5] =
      Inr \<lparr> n = [1], mean = [5], mean_diff = [0], variance = [1 / 100] \<rparr>"
    by (simp add: observe_def Normalizer_init_def vec_sub_def vec_div_def vec_add_def
        vec_mul_def Let_def)
  have r: "replicate 2 (real (length [[1, 2], [3, 4::real]])) = [2, 2]"
    by (simp add: numeral_2_eq_2)
  show ?thesis
    using n_is_shared_count[of "Normalizer_init 1" "[5]"
        "\<lparr> n = [1], mean = [5], mean_diff = [0], variance = [1 / 100] \<rparr>"
        "[[1, 2], [3, 4]]" 2] o r
    by (simp add: Normalizer_init_def)
qed

text \<open>
  Claim C6. For every sequence \<open>x1..xk\<close> (\<open>k \<ge> 1\<close>) of observations of dimension \<open>d\<close>
  fed by \<^verbatim>\<open>observe\<close> to a freshly constructed normalizer of that dimension, all calls
  return, afterwards \<open>n\<close> is \<open>k\<close> in every dimension and \<open>mean\<close> is the arithmetic mean of
  \<open>x1..xk\<close>, exactly; after a single \<^verbatim>\<open>observe(x)\<close>, \<open>mean = x\<close> and \<open>n\<close> is 1 in every
  dimension.
\<close>

theorem mean_is_arithmetic_mean:
  assumes "xs \<noteq> []" and "\<forall>x\<in>set xs. length x = d"
  shows "\<exists>M. observe_all (Normalizer_init d) xs = Inr M \<and>
     n M = replicate d (real (length xs)) \<and>
     mean M = map (\<lambda>i. (\<Sum>x\<leftarrow>xs. x ! i) / real (length xs)) [0..<d] \<and>
     (length xs = 1 \<longrightarrow> mean M = hd xs \<and> n M = replicate d 1)"
proof -
  from observe_all_fresh[OF assms(2)] obtain M where
    M: "observe_all (Normalizer_init d) xs = Inr M" "shaped d M"
      "n M = replicate d (real (length xs))"
      "\<forall>i<d. mean M ! i * real (length xs) = (\<Sum>x\<leftarrow>xs. x ! i)"
    by blast
  have pos: "real (length xs) \<noteq> 0"
    using assms(1) by simp
  have entry: "mean M ! i = (\<Sum>x\<leftarrow>xs. x ! i) / real (length xs)" if "i < d" for i
    using M(4) that pos by (simp add: field_simps)
  have len: "length (mean M) = d"
    using M(2) by (simp add: shaped_def)
  have mean_eq: "mean M = map (\<lambda>i. (\<Sum>x\<leftarrow>xs. x ! i) / real (length xs)) [0..<d]"
    by (rule nth_equalityI) (simp_all add: len entry)
  have single: "mean M = hd xs \<and> n M = replicate d 1" if one: "length xs = 1"
  proof -
    from one obtain x where xs: "xs = [x]"
      by (cases xs) auto
    have "length x = d"
      using assms(2) xs by simp
    then have "mean M = x"
      by (intro nth_equalityI) (simp_all add: len entry xs)
    then show ?thesis
      using M(3) xs by simp
  qed
  show ?thesis
    using M(1,3) mean_eq single by blast
qed

theorem mean_is_arithmetic_mean_witness:
  "\<exists>M. observe_all (Normalizer_init 2) [[1, 2], [3, 4]] = Inr M \<and>
     n M = [2, 2] \<and> mean M = [2, 3]"
proof -
  have up: "[0..<2] = [0, 1]"
    by (simp add: upt_rec)
  show ?thesis
    using mean_is_arithmetic_mean[of "[[1, 2], [3, 4]]" 2]
    by (simp add: numeral_2_eq_2 up)
qed

text \<open>
  Claim C7. After every \<^verbatim>\<open>observe\<close> call every component of \<open>variance\<close> is at least
  0.01: for any normalizer whatever, when the call returns; and for a freshly constructed
  normalizer of dimension \<open>d\<close> fed observations of that dimension, after each of the
  calls (the first \<open>j\<close> of them, for every \<open>j \<ge> 1\<close>), all of which return.
\<close>

theorem variance_floor_after_every_observe:
  "(observe N x = Inr N' \<longrightarrow> (\<forall>v\<in>set (variance N'). 1 / 100 \<le> v)) \<and>
   ((\<forall>y\<in>set xs. length y = d) \<and> 0 < j \<and> j \<le> length xs \<longrightarrow>
      (\<exists>M. observe_all (Normalizer_init d) (take j xs) = Inr M \<and>
           length (variance M) = d \<and> (\<forall>i<d. 1 / 100 \<le> variance M ! i)))"
proof (intro conjI impI)
  assume "observe N x = Inr N'"
  then show "\<forall>v\<in>set (variance N'). 1 / 100 \<le> v"
    by (rule observe_Inr_variance)
next
  assume a: "(\<forall>y\<in>set xs. length y = d) \<and> 0 < j \<and> j \<le> length xs"
  then have "\<forall>y\<in>set (take j xs). length y = d"
    by (meson in_set_takeD)
  from observe_all_fresh[OF this] obtain M where
    M: "observe_all (Normalizer_init d) (take j xs) = Inr M" "shaped d M"
    by blast
  have "take j xs \<noteq> []"
    using a by auto
  from observe_all_variance[OF M(1) this] have "\<forall>v\<in>set (variance M). 1 / 100 \<le> v" .
  moreover have "length (variance M) = d"
    using M(2) by (simp add: shaped_def)
  ultimately have "\<forall>i<d. 1 / 100 \<le> variance M ! i"
    by (metis nth_mem)
  then show "\<exists>M. observe_all (Normalizer_init d) (take j xs) = Inr M \<and>
           length (variance M) = d \<and> (\<forall>i<d. 1 / 100 \<le> variance M ! i)"
    using M(1) \<open>length (variance M) = d\<close> by blast
qed


theorem variance_floor_after_every_observe_witness:
  "1 / 100 \<le> variance \<lparr> n = [1], mean = [5], mean_diff = [0], variance = [1 / 100] \<rparr> ! 0 \<and>
   (\<exists>M. observe_all (Normalizer_init 2) (take 1 [[1, 2], [3, 4]]) = Inr M \<and>
        length (variance M) = 2 \<and> 1 / 100 \<le> variance M ! 0 \<and> 1 / 100 \<le> variance M ! 1)"
proof -
  have o: "observe (Normalizer_init 1) [5] =
      Inr \<lparr> n = [1], mean = [5], mean_diff = [0], variance = [1 / 100] \<rparr>"
    by (simp add: observe_def Normalizer_init_def vec_sub_def vec_div_def vec_add_def
        vec_mul_def Let_def)
  have two: "(\<forall>i<2::nat. P i) \<longleftrightarrow> P 0 \<and> P 1" for P
    by (auto simp: less_2_cases_iff)
  show ?thesis
    using variance_floor_after_every_observe[of "Normalizer_init 1" "[5]"
        "\<lparr> n = [1], mean = [5], mean_diff = [0], variance = [1 / 100] \<rparr>"
        "[[1, 2], [3, 4]]" 2 1] o
    by (simp add: two del: observe_all.simps)
qed

lemma normalize_floored:
  assumes "shaped d M" and "\<forall>v\<in>set (variance M). 1 / 100 \<le> v" and "length inputs = d"
  shows "normalize_obs M inputs =
     Inr (map2 (/) (map2 (-) inputs (mean M)) (map sqrt (variance M)))"
proof -
  have pos: "0 < v" if "v \<in> set (variance M)" for v
    using assms(2) that by fastforce
  have no_neg: "\<not> list_ex (\<lambda>v. v < 0) (variance M)"
    using pos by (fastforce simp: list_ex_iff)
  have no_zero: "0 \<notin> set (map sqrt (variance M))"
  proof
    assume "0 \<in> set (map sqrt (variance M))"
    then obtain v where "v \<in> set (variance M)" and "sqrt v = 0"
      by auto
    with pos show False
      by fastforce
  qed
  show ?thesis
    using assms(1,3) no_neg no_zero
    by (simp add: normalize_obs_def vec_sqrt_def vec_sub_def vec_div_def shaped_def)
qed

text \<open>
  Claim C2, which the code refutes: \<^verbatim>\<open>Normalizer.__init__\<close> sets \<open>variance\<close> to
  zeros, so on a freshly constructed normalizer \<open>variance[i] = 0 < 0.01\<close> and
  \<^verbatim>\<open>normalize\<close> divides by \<open>sqrt 0\<close>.
\<close>

theorem variance_floor_needs_observe_counterexample:
  "variance (Normalizer_init 2) ! 0 < 1 / 100 \<and>
   normalize_obs (Normalizer_init 2) [1, 2] = Inl NonFinite"
  by (simp add: Normalizer_init_def normalize_obs_def vec_sqrt_def vec_sub_def vec_div_def
      numeral_2_eq_2)

text \<open>
  Claim C2 as amended. A freshly constructed normalizer has \<open>variance[i] = 0\<close> in every
  dimension, and \<^verbatim>\<open>normalize\<close> on it divides by zero. From the first \<^verbatim>\<open>observe\<close>
  call on, \<open>variance[i] \<ge> 0.01\<close> holds for every dimension \<open>i\<close>, and \<^verbatim>\<open>normalize\<close>
  returns \<open>(inputs - mean) / sqrt(variance)\<close> without dividing by zero.
\<close>

theorem variance_floor_needs_observe:
  "variance (Normalizer_init d) = replicate d 0 \<and>
   (0 < d \<and> length inputs = d \<longrightarrow> normalize_obs (Normalizer_init d) inputs = Inl NonFinite) \<and>
   (xs \<noteq> [] \<and> (\<forall>x\<in>set xs. length x = d) \<and> length inputs = d \<longrightarrow>
      (\<exists>M. observe_all (Normalizer_init d) xs = Inr M \<and>
           (\<forall>i<d. 1 / 100 \<le> variance M ! i) \<and>
           normalize_obs M inputs =
             Inr (map2 (/) (map2 (-) inputs (mean M)) (map sqrt (variance M)))))"
proof (intro conjI impI)
  show "variance (Normalizer_init d) = replicate d 0"
    by (simp add: Normalizer_init_def)
next
  assume "0 < d \<and> length inputs = d"
  then show "normalize_obs (Normalizer_init d) inputs = Inl NonFinite"
    by (simp add: Normalizer_init_def normalize_obs_def vec_sqrt_def vec_sub_def vec_div_def
        list_ex_iff)
next
  assume a: "xs \<noteq> [] \<and> (\<forall>x\<in>set xs. length x = d) \<and> length inputs = d"
  then have "\<forall>x\<in>set xs. length x = d"
    by simp
  from observe_all_fresh[OF this] obtain M where
    M: "observe_all (Normalizer_init d) xs = Inr M" "shaped d M"
    by blast
  from a have "xs \<noteq> []"
    by simp
  from observe_all_variance[OF M(1) this] have v: "\<forall>v\<in>set (variance M). 1 / 100 \<le> v" .
  have "length (variance M) = d"
    using M(2) by (simp add: shaped_def)
  with v have "\<forall>i<d. 1 / 100 \<le> variance M ! i"
    by (metis nth_mem)
  moreover have "normalize_obs M inputs =
      Inr (map2 (/) (map2 (-) inputs (mean M)) (map sqrt (variance M)))"
    using normalize_floored[OF M(2) v] a by simp
  ultimately show "\<exists>M. observe_all (Normalizer_init d) xs = Inr M \<and>
           (\<forall>i<d. 1 / 100 \<le> variance M ! i) \<and>
           normalize_obs M inputs =
             Inr (map2 (/) (map2 (-) inputs (mean M)) (map sqrt (variance M)))"
    using M(1) by blast
qed

theorem variance_floor_needs_observe_witness:
  "normalize_obs (Normalizer_init 2) [3, 4] = Inl NonFinite \<and>
   (\<exists>M. observe_all (Normalizer_init 2) [[1, 2]] = Inr M \<and>
        1 / 100 \<le> variance M ! 0 \<and> 1 / 100 \<le> variance M ! 1 \<and>
        normalize_obs M [3, 4] =
          Inr (map2 (/) (map2 (-) [3, 4] (mean M)) (map sqrt (variance M))))"
proof -
  have two: "(\<forall>i<2::nat. P i) \<longleftrightarrow> P 0 \<and> P 1" for P
    by (auto simp: less_2_cases_iff)
  show ?thesis
    using variance_floor_needs_observe[of 2 "[3, 4]" "[[1, 2]]"]
    by (simp add: two del: observe_all.simps)
qed

section \<open>The policy\<close>

lemma map2_add_zeros: "map2 (+) row (map (\<lambda>a. 0) row) = (row :: real list)"
  by (induction row) simp_all

lemma map2_sub_zeros: "map2 (-) row (map (\<lambda>a. 0) row) = (row :: real list)"
  by (induction row) simp_all

lemma mat_scale_zeros: "mat_scale c (zeros_like A) = zeros_like A"
  by (simp add: mat_scale_def zeros_like_def)

lemma mat_add_zeros: "mat_add A (zeros_like A) = Inr A"
proof -
  have "map2 (map2 (+)) A (map (map (\<lambda>a. 0)) A) = A"
    by (induction A) (simp_all add: map2_add_zeros)
  then show ?thesis
    by (simp add: mat_add_def zeros_like_def comp_def)
qed

lemma mat_sub_zeros: "mat_sub A (zeros_like A) = Inr A"
proof -
  have "map2 (map2 (-)) A (map (map (\<lambda>a. 0)) A) = A"
    by (induction A) (simp_all add: map2_sub_zeros)
  then show ?thesis
    by (simp add: mat_sub_def zeros_like_def comp_def)
qed

text \<open>
  Claim C8. For every policy and every input vector, \<^verbatim>\<open>evaluate\<close> with no direction
  returns \<open>theta \<cdot> input\<close> (whatever \<^verbatim>\<open>delta\<close> is), and \<^verbatim>\<open>evaluate\<close> with direction
  Plus and a zero delta matrix, and with direction Minus and a zero delta matrix, return
  the same (the same vector, or the same ValueError when the input does not fit the
  matrix).
\<close>

theorem evaluate_zero_delta:
  "evaluate P input delta None = mat_dot (theta P) input \<and>
   evaluate P input (Some (zeros_like (theta P))) (Some Plus) = evaluate P input delta None \<and>
   evaluate P input (Some (zeros_like (theta P))) (Some Minus) = evaluate P input delta None"
  by (simp add: evaluate_def mat_scale_zeros mat_add_zeros mat_sub_zeros)

theorem evaluate_zero_delta_witness:
  "evaluate \<lparr> theta = [[1, 2, 3], [4, 5, 6]], policy_hp = default_Hp \<rparr> [1, 1, 1] None None
     = Inr [6, 15] \<and>
   evaluate \<lparr> theta = [[1, 2, 3], [4, 5, 6]], policy_hp = default_Hp \<rparr> [1, 1, 1]
     (Some [[0, 0, 0], [0, 0, 0]]) (Some Plus) = Inr [6, 15] \<and>
   evaluate \<lparr> theta = [[1, 2, 3], [4, 5, 6]], policy_hp = default_Hp \<rparr> [1, 1, 1]
     (Some [[0, 0, 0], [0, 0, 0]]) (Some Minus) = Inr [6, 15]"
  using evaluate_zero_delta[of "\<lparr> theta = [[1, 2, 3], [4, 5, 6]], policy_hp = default_Hp \<rparr>"
      "[1, 1, 1]" None]
  by (simp add: zeros_like_def mat_dot_def)

lemma mat_add_Inr:
  assumes "map length A = map length B"
  shows "mat_add A B = Inr (map2 (map2 (+)) A B)"
  using assms by (simp add: mat_add_def)

lemma mat_add_shape:
  assumes "map length A = map length B"
  shows "map length (map2 (map2 (+)) A B) = map length A"
  using assms
proof (induction A arbitrary: B)
  case Nil
  then show ?case by simp
next
  case (Cons a A)
  then show ?case by (cases B) auto
qed

lemma mat_add_nth:
  assumes "map length A = map length B" and "i < length A" and "j < length (A ! i)"
  shows "map2 (map2 (+)) A B ! i ! j = A ! i ! j + B ! i ! j"
proof -
  have lenAB: "length A = length B"
    using assms(1) by (metis length_map)
  have "length (A ! i) = length (B ! i)"
    using assms(1,2) lenAB by (metis nth_map)
  then show ?thesis
    using assms(2,3) lenAB by simp
qed

lemma mat_scale_shape: "map length (mat_scale c A) = map length A"
  by (simp add: mat_scale_def)

lemma mat_scale_nth:
  assumes "i < length A" and "j < length (A ! i)"
  shows "mat_scale c A ! i ! j = c * A ! i ! j"
  using assms by (simp add: mat_scale_def)

lemma zeros_like_shape: "map length (zeros_like A) = map length A"
  by (simp add: zeros_like_def)

lemma zeros_like_nth:
  assumes "i < length A" and "j < length (A ! i)"
  shows "zeros_like A ! i ! j = 0"
  using assms by (simp add: zeros_like_def)

lemma accumulate_step_sum:
  assumes "\<forall>(r_pos, r_neg, delta)\<in>set rollouts. map length delta = map length acc"
  shows "\<exists>S. accumulate_step acc rollouts = Inr S \<and> map length S = map length acc \<and>
     (\<forall>i<length acc. \<forall>j<length (acc ! i).
        S ! i ! j = acc ! i ! j + (\<Sum>(r_pos, r_neg, delta)\<leftarrow>rollouts. (r_pos - r_neg) * delta ! i ! j))"
  using assms
proof (induction rollouts arbitrary: acc)
  case Nil
  then show ?case by simp
next
  case (Cons r rollouts)
  obtain r_pos r_neg delta where r: "r = (r_pos, r_neg, delta)"
    by (cases r) auto
  have sh: "map length acc = map length (mat_scale (r_pos - r_neg) delta)"
    using Cons.prems r by (simp add: mat_scale_shape)
  define acc' where "acc' = map2 (map2 (+)) acc (mat_scale (r_pos - r_neg) delta)"
  have step: "mat_add acc (mat_scale (r_pos - r_neg) delta) = Inr acc'"
    using sh by (simp add: mat_add_Inr acc'_def)
  have sh': "map length acc' = map length acc"
    unfolding acc'_def using sh by (rule mat_add_shape)
  have len': "length acc' = length acc"
    using sh' by (metis length_map)
  have lend: "length delta = length acc"
    using Cons.prems r by (metis (mono_tags, lifting) case_prodD length_map list.set_intros(1))
  have rowd: "length (delta ! i) = length (acc ! i)" if "i < length acc" for i
  proof -
    have "map length delta = map length acc"
      using Cons.prems r by auto
    then show ?thesis
      using that lend by (metis nth_map)
  qed
  have row': "length (acc' ! i) = length (acc ! i)" if "i < length acc" for i
    using sh' that len' by (metis nth_map)
  have entry: "acc' ! i ! j = acc ! i ! j + (r_pos - r_neg) * delta ! i ! j"
    if "i < length acc" and "j < length (acc ! i)" for i j
    unfolding acc'_def
    using mat_add_nth[OF sh that] mat_scale_nth[of i delta j "r_pos - r_neg"] that lend rowd
    by simp
  have "\<forall>(r_pos, r_neg, delta)\<in>set rollouts. map length delta = map length acc'"
    using Cons.prems sh' by auto
  from Cons.IH[OF this] obtain S where
    S: "accumulate_step acc' rollouts = Inr S" "map length S = map length acc'"
      "\<forall>i<length acc'. \<forall>j<length (acc' ! i).
        S ! i ! j = acc' ! i ! j + (\<Sum>(r_pos, r_neg, delta)\<leftarrow>rollouts. (r_pos - r_neg) * delta ! i ! j)"
    by blast
  have "accumulate_step acc (r # rollouts) = Inr S"
    using step S(1) r by simp
  moreover have "map length S = map length acc"
    using S(2) sh' by simp
  moreover have "S ! i ! j = acc ! i ! j + (\<Sum>(r_pos, r_neg, delta)\<leftarrow>r # rollouts. (r_pos - r_neg) * delta ! i ! j)"
    if "i < length acc" and "j < length (acc ! i)" for i j
    using S(3) that entry[OF that] len' row'[OF that(1)] r by simp
  ultimately show ?case
    by blast
qed


text \<open>
  Claim C4, which the code refutes where \<^verbatim>\<open>num_best_deltas\<close> is 0, a value that
  \<^verbatim>\<open>Hp.__init__\<close> accepts: the divisor \<^verbatim>\<open>num_best_deltas * sigma_rewards\<close> is then
  zero for every \<^verbatim>\<open>sigma_rewards\<close>, and \<^verbatim>\<open>update\<close> with an empty rollout list and
  \<^verbatim>\<open>sigma_rewards = 1\<close> does not leave the weights as they were.
\<close>

theorem update_adds_scaled_step_counterexample:
  "Hp_init 1500 3000 20 0 100 ''BipedalWalker-v2'' 42 (3 / 100) (2 / 100)
     = Inr (default_Hp\<lparr>num_best_deltas := 0\<rparr>) \<and>
   update (Policy_init 3 2 (default_Hp\<lparr>num_best_deltas := 0\<rparr>)) [] 1 = Inl NonFinite"
  by (simp add: Hp_init_def default_Hp_def Policy_init_def update_def float_div_def)

text \<open>
  Claim C4 as amended. For every list of rollouts whose deltas have the shape of the
  weight matrix, every \<^verbatim>\<open>sigma_rewards \<noteq> 0\<close> and every \<^verbatim>\<open>num_best_deltas \<noteq> 0\<close>,
  \<^verbatim>\<open>update\<close> adds exactly
  \<open>alpha / (num_best_deltas * sigma_rewards) * \<Sum> (r_pos - r_neg) * delta\<close> (summed over
  the rollouts) to the weight matrix and changes nothing else; with an empty list of
  rollouts the weights stay as they were.
\<close>

theorem update_adds_scaled_step:
  assumes "\<forall>(r_pos, r_neg, delta)\<in>set rollouts. map length delta = map length (theta P)"
    and "sigma_rewards \<noteq> 0"
    and "num_best_deltas (policy_hp P) \<noteq> 0"
  shows "\<exists>W. update P rollouts sigma_rewards = Inr (P\<lparr>theta := W\<rparr>) \<and>
       map length W = map length (theta P) \<and>
       (\<forall>i<length (theta P). \<forall>j<length (theta P ! i).
          W ! i ! j = theta P ! i ! j +
            alpha (policy_hp P) / (of_int (num_best_deltas (policy_hp P)) * sigma_rewards) *
              (\<Sum>(r_pos, r_neg, delta)\<leftarrow>rollouts. (r_pos - r_neg) * delta ! i ! j)) \<and>
       (rollouts = [] \<longrightarrow> W = theta P)"
proof -
  define c where
    "c = alpha (policy_hp P) / (of_int (num_best_deltas (policy_hp P)) * sigma_rewards)"
  have "\<forall>(r_pos, r_neg, delta)\<in>set rollouts.
      map length delta = map length (zeros_like (theta P))"
    using assms(1) by (simp add: zeros_like_shape)
  from accumulate_step_sum[OF this] obtain S where
    S: "accumulate_step (zeros_like (theta P)) rollouts = Inr S"
      "map length S = map length (theta P)"
      "\<forall>i<length (theta P). \<forall>j<length (theta P ! i).
         S ! i ! j = (\<Sum>(r_pos, r_neg, delta)\<leftarrow>rollouts. (r_pos - r_neg) * delta ! i ! j)"
    by (auto simp: zeros_like_shape zeros_like_def)
  have dv: "float_div (alpha (policy_hp P))
      (of_int (num_best_deltas (policy_hp P)) * sigma_rewards) = Inr c"
    using assms(2,3) by (simp add: float_div_def c_def)
  define W where "W = map2 (map2 (+)) (theta P) (mat_scale c S)"
  have sh: "map length (theta P) = map length (mat_scale c S)"
    using S(2) by (simp add: mat_scale_shape)
  have ad: "mat_add (theta P) (mat_scale c S) = Inr W"
    using sh by (simp add: mat_add_Inr W_def)
  have upd: "update P rollouts sigma_rewards = Inr (P\<lparr>theta := W\<rparr>)"
    using S(1) dv ad by (simp add: update_def)
  have shW: "map length W = map length (theta P)"
    unfolding W_def using sh by (rule mat_add_shape)
  have lenS: "length S = length (theta P)"
    using S(2) by (metis length_map)
  have rowS: "length (S ! i) = length (theta P ! i)" if "i < length (theta P)" for i
    using S(2) that lenS by (metis nth_map)
  have entry: "W ! i ! j = theta P ! i ! j +
      c * (\<Sum>(r_pos, r_neg, delta)\<leftarrow>rollouts. (r_pos - r_neg) * delta ! i ! j)"
    if "i < length (theta P)" and "j < length (theta P ! i)" for i j
    unfolding W_def
    using mat_add_nth[OF sh that] mat_scale_nth[of i S j c] S(3) that lenS rowS
    by simp
  have empty: "W = theta P" if "rollouts = []"
  proof -
    have "S = zeros_like (theta P)"
      using S(1) that by simp
    then have "mat_add (theta P) (mat_scale c S) = Inr (theta P)"
      by (simp add: mat_scale_zeros mat_add_zeros)
    with ad show ?thesis
      by simp
  qed
  show ?thesis
    using upd shW entry empty unfolding c_def by blast
qed

theorem update_adds_scaled_step_witness:
  "\<exists>W. update \<lparr> theta = [[1, 2]], policy_hp = default_Hp\<lparr>alpha := 1, num_best_deltas := 2\<rparr> \<rparr>
          [(3, 1, [[1, 0]]), (1, 2, [[0, 4]])] (1 / 2)
        = Inr \<lparr> theta = W, policy_hp = default_Hp\<lparr>alpha := 1, num_best_deltas := 2\<rparr> \<rparr> \<and>
      W ! 0 ! 0 = 3 \<and> W ! 0 ! 1 = - 2"
proof -
  let ?P = "\<lparr> theta = [[1, 2]], policy_hp = default_Hp\<lparr>alpha := 1, num_best_deltas := 2\<rparr> \<rparr>"
  let ?rs = "[(3, 1, [[1, 0]]), (1, 2, [[0, 4]])] :: (real \<times> real \<times> mat) list"
  have h1: "\<forall>(r_pos, r_neg, delta)\<in>set ?rs. map length delta = map length (theta ?P)"
    by simp
  have h2: "(1 / 2 :: real) \<noteq> 0"
    by simp
  have h3: "num_best_deltas (policy_hp ?P) \<noteq> 0"
    by (simp add: default_Hp_def)
  from update_adds_scaled_step[OF h1 h2 h3] obtain W where
    W: "update ?P ?rs (1 / 2) = Inr (?P\<lparr>theta := W\<rparr>)"
      "\<forall>i<length (theta ?P). \<forall>j<length (theta ?P ! i).
          W ! i ! j = theta ?P ! i ! j +
            alpha (policy_hp ?P) / (of_int (num_best_deltas (policy_hp ?P)) * (1 / 2)) *
              (\<Sum>(r_pos, r_neg, delta)\<leftarrow>?rs. (r_pos - r_neg) * delta ! i ! j)"
    by blast
  from W(2) have "W ! 0 ! 0 = 3" and "W ! 0 ! 1 = - 2"
    by (simp_all add: default_Hp_def)
  with W(1) show ?thesis
    by (intro exI[of _ W]) simp
qed

section \<open>Rollouts\<close>

lemma explore_body_reward:
  assumes "explore_body delta direction V = Inr V'"
  shows "\<exists>reward. env_reward delta direction V = Inr reward \<and>
     sum_rewards V' = sum_rewards V + clamp_reward reward"
  using assms
  by (auto simp: explore_body_def env_reward_def Let_def and_then_eq_Inr split_def)

lemma env_reward_body:
  assumes "env_reward delta direction V = Inr reward"
  shows "\<exists>V'. explore_body delta direction V = Inr V'"
  using assms
  by (auto simp: explore_body_def env_reward_def Let_def and_then_eq_Inr split_def)

lemma explore_loop_stop: "\<not> running V \<Longrightarrow> explore_loop delta direction V = Inr V"
  by (subst explore_loop.simps) (auto simp: running_def)

lemma explore_loop_go:
  "running V \<Longrightarrow> explore_loop delta direction V =
     (case explore_body delta direction V of
        Inl e \<Rightarrow> Inl e
      | Inr V' \<Rightarrow> explore_loop delta direction V')"
  by (subst explore_loop.simps) (auto simp: running_def)

lemma env_rewards_stop: "\<not> running V \<Longrightarrow> env_rewards delta direction V = []"
  by (subst env_rewards.simps) (auto simp: running_def)

lemma env_rewards_fault:
  "explore_body delta direction V = Inl e \<Longrightarrow> env_rewards delta direction V = []"
  by (subst env_rewards.simps) (auto simp: running_def)

lemma env_rewards_go:
  "running V \<Longrightarrow> explore_body delta direction V = Inr V' \<Longrightarrow>
   env_reward delta direction V = Inr reward \<Longrightarrow>
   env_rewards delta direction V = reward # env_rewards delta direction V'"
  by (subst env_rewards.simps) (auto simp: running_def)

lemma explore_loop_rewards:
  assumes "explore_loop delta direction V = Inr V'"
  shows "sum_rewards V' =
       sum_rewards V + sum_list (map clamp_reward (env_rewards delta direction V)) \<and>
     num_plays V' = num_plays V + length (env_rewards delta direction V)"
  using assms
proof (induction delta direction V rule: explore_loop.induct)
  case (1 delta direction V)
  show ?case
  proof (cases "running V")
    case False
    then show ?thesis
      using "1.prems" by (simp add: explore_loop_stop env_rewards_stop)
  next
    case True
    with "1.prems" obtain W where W: "explore_body delta direction V = Inr W"
      and rest: "explore_loop delta direction W = Inr V'"
      by (auto simp: explore_loop_go split: sum.splits)
    from explore_body_reward[OF W] obtain reward where
      r: "env_reward delta direction V = Inr reward"
        "sum_rewards W = sum_rewards V + clamp_reward reward"
      by blast
    have c: "\<not> is_done V \<and> int (num_plays V) < episode_length (hp (agent V))"
      using True by (simp add: running_def)
    from "1.IH"[OF c W rest] r(2) explore_body_frame(1)[OF W] env_rewards_go[OF True W r(1)]
    show ?thesis
      by simp
  qed
qed

lemma clamp_reward_cases:
  "clamp_reward reward = (if reward < - 1 then - 1 else if 1 < reward then 1 else reward)"
  by (simp add: clamp_reward_def)

lemma clamp_reward_range: "- 1 \<le> clamp_reward reward \<and> clamp_reward reward \<le> 1"
  by (simp add: clamp_reward_def)

lemma env_rewards_bound:
  "int (num_plays V) + int (length (env_rewards delta direction V))
     \<le> max (int (num_plays V)) (episode_length (hp (agent V)))"
proof (induction delta direction V rule: env_rewards.induct)
  case (1 delta direction V)
  show ?case
  proof (cases "running V")
    case False
    then show ?thesis
      by (simp add: env_rewards_stop)
  next
    case True
    then have c: "\<not> is_done V \<and> int (num_plays V) < episode_length (hp (agent V))"
      by (simp add: running_def)
    show ?thesis
    proof (cases "explore_body delta direction V")
      case (Inl e)
      then show ?thesis
        by (simp add: env_rewards_fault)
    next
      case (Inr W)
      from explore_body_reward[OF Inr] obtain reward where
        r: "env_reward delta direction V = Inr reward"
        by blast
      from "1.IH"[OF c Inr r] explore_body_frame(1,2)[OF Inr] c env_rewards_go[OF True Inr r]
      show ?thesis
        by simp
    qed
  qed
qed



lemmas stub_defs =
  stub_agent_def explore_start_def ArsAgent_init_def stub_env_def default_Hp_def
  py_or_def Normalizer_init_def Policy_init_def explore_body_def env_reward_def
  observe_def normalize_obs_def evaluate_def vec_sub_def vec_div_def vec_add_def
  vec_mul_def vec_sqrt_def mat_dot_def mat_add_def mat_sub_def mat_scale_def
  clamp_reward_def Let_def

lemma explore_start_fields:
  "agent (explore_start A) = A\<lparr>env_state := snd (env_reset (env A) (env_state A))\<rparr>"
  "num_plays (explore_start A) = 0"
  "sum_rewards (explore_start A) = 0"
  "is_done (explore_start A) = False"
  by (simp_all add: explore_start_def split_def)

text \<open>
  Claim C9. In every rollout of \<^verbatim>\<open>explore\<close>, each pass through the loop adds to
  \<^verbatim>\<open>sum_rewards\<close> the reward the environment returned, clamped to \<open>[-1, 1]\<close>: a reward
  below \<open>-1\<close> counts as \<open>-1\<close>, a reward above 1 counts as 1, and a reward in between
  counts as it is; a reward of 5 contributes exactly 1; and the value \<^verbatim>\<open>explore\<close>
  returns is the sum of the clamped rewards of the steps of the rollout.
\<close>

theorem rollout_sums_clamped_rewards:
  "(explore_body delta direction V = Inr V' \<longrightarrow>
      (\<exists>reward. env_reward delta direction V = Inr reward \<and>
         sum_rewards V' = sum_rewards V + clamp_reward reward)) \<and>
   clamp_reward r = (if r < - 1 then - 1 else if 1 < r then 1 else r) \<and>
   - 1 \<le> clamp_reward r \<and> clamp_reward r \<le> 1 \<and> clamp_reward 5 = 1 \<and>
   (explore A direction delta = Inr (returned, A') \<longrightarrow>
      returned = sum_list (map clamp_reward (env_rewards delta direction (explore_start A))))"
proof (intro conjI impI)
  assume "explore_body delta direction V = Inr V'"
  then show "\<exists>reward. env_reward delta direction V = Inr reward \<and>
         sum_rewards V' = sum_rewards V + clamp_reward reward"
    by (rule explore_body_reward)
next
  show "clamp_reward r = (if r < - 1 then - 1 else if 1 < r then 1 else r)"
    by (rule clamp_reward_cases)
next
  show "- 1 \<le> clamp_reward r" and "clamp_reward r \<le> 1"
    using clamp_reward_range[of r] by simp_all
next
  show "clamp_reward 5 = 1"
    by (simp add: clamp_reward_def)
next
  assume "explore A direction delta = Inr (returned, A')"
  then obtain W where W: "explore_loop delta direction (explore_start A) = Inr W"
    and t: "returned = sum_rewards W"
    by (auto simp: explore_def and_then_eq_Inr)
  from explore_loop_rewards[OF W] t
  show "returned = sum_list (map clamp_reward (env_rewards delta direction (explore_start A)))"
    by (simp add: explore_start_fields)
qed

lemma stub_rewards_once:
  "env_rewards None None (explore_start (stub_agent default_Hp 5 True None)) = [5]"
  by (simp add: env_rewards.simps stub_defs)

theorem rollout_sums_clamped_rewards_witness:
  "explore (stub_agent default_Hp 5 True None) None None
     = Inr (1, (stub_agent default_Hp 5 True None)
          \<lparr>normalizer := \<lparr> n = [1], mean = [0], mean_diff = [0], variance = [1 / 100] \<rparr>\<rparr>) \<and>
   env_rewards None None (explore_start (stub_agent default_Hp 5 True None)) = [5] \<and>
   (1::real) = sum_list (map clamp_reward [5]) \<and>
   (\<exists>reward. env_reward None None (explore_start (stub_agent default_Hp 5 True None)) = Inr reward \<and>
      1 = 0 + clamp_reward reward) \<and>
   clamp_reward (1 / 2) = 1 / 2 \<and> clamp_reward (- 5) = - 1 \<and> clamp_reward (- 1) = - 1"
proof -
  let ?A = "stub_agent default_Hp 5 True None"
  let ?A' = "?A\<lparr>normalizer := \<lparr> n = [1], mean = [0], mean_diff = [0], variance = [1 / 100] \<rparr>\<rparr>"
  let ?V' = "\<lparr> agent = ?A', state = [0], is_done = True, num_plays = 1, sum_rewards = 1 \<rparr>"
  have e: "explore ?A None None = Inr (1, ?A')"
    by (simp add: explore_def explore_loop.simps stub_defs)
  have b: "explore_body None None (explore_start ?A) = Inr ?V'"
    by (simp add: stub_defs)
  have inside: "clamp_reward (1 / 2) = 1 / 2"
    using rollout_sums_clamped_rewards[of None None "explore_start ?A" ?V' "1 / 2" ?A 1 ?A']
    by simp
  have below: "clamp_reward (- 5) = - 1"
    using rollout_sums_clamped_rewards[of None None "explore_start ?A" ?V' "- 5" ?A 1 ?A']
    by simp
  have edge: "clamp_reward (- 1) = - 1"
    using rollout_sums_clamped_rewards[of None None "explore_start ?A" ?V' "- 1" ?A 1 ?A']
    by simp
  show ?thesis
    using rollout_sums_clamped_rewards[of None None "explore_start ?A" ?V' 5 ?A 1 ?A']
      e b stub_rewards_once inside below edge
    by (simp add: explore_start_fields)
qed

text \<open>
  Claim C3, which the code refutes: \<^verbatim>\<open>timestep_limit or episode_length\<close> takes the
  environment's limit whenever it is there and not zero, also when it is larger than
  the configured value. With \<^verbatim>\<open>episode_length = 1\<close> configured and an environment of
  limit 2 that never signals \<^verbatim>\<open>done\<close>, the cap is 2, not \<open>min 1 2\<close>, and a rollout
  makes 2 steps.
\<close>

theorem episode_length_is_env_limit_counterexample:
  "episode_length (default_Hp\<lparr>episode_length := 1\<rparr>) = 1 \<and>
   timestep_limit (env (stub_agent (default_Hp\<lparr>episode_length := 1\<rparr>) 0 False (Some 2))) = Some 2 \<and>
   episode_length (hp (stub_agent (default_Hp\<lparr>episode_length := 1\<rparr>) 0 False (Some 2))) = 2 \<and>
   length (env_rewards None None
     (explore_start (stub_agent (default_Hp\<lparr>episode_length := 1\<rparr>) 0 False (Some 2)))) = 2"
  by (simp add: env_rewards.simps stub_defs)

text \<open>
  Claim C3 as amended. The step cap a rollout uses is the environment's own limit
  whenever the environment has one that is not zero, smaller or larger than the
  configured \<^verbatim>\<open>episode_length\<close>, and the configured value otherwise; a rollout never
  makes more environment steps than this cap.
\<close>

theorem episode_length_is_env_limit:
  "episode_length (hp (ArsAgent_init h e s in_size out_size nrm pol)) =
      (case timestep_limit e of
         None \<Rightarrow> episode_length h
       | Some l \<Rightarrow> if l = 0 then episode_length h else l) \<and>
   int (length (env_rewards delta direction (explore_start A))) \<le> max 0 (episode_length (hp A)) \<and>
   (explore_loop delta direction (explore_start A) = Inr V' \<longrightarrow>
      num_plays V' = length (env_rewards delta direction (explore_start A)) \<and>
      int (num_plays V') \<le> max 0 (episode_length (hp A)))"
proof (intro conjI impI)
  show "episode_length (hp (ArsAgent_init h e s in_size out_size nrm pol)) =
      (case timestep_limit e of
         None \<Rightarrow> episode_length h
       | Some l \<Rightarrow> if l = 0 then episode_length h else l)"
    by (simp add: ArsAgent_init_def py_or_def Let_def split: option.splits)
next
  show b: "int (length (env_rewards delta direction (explore_start A)))
      \<le> max 0 (episode_length (hp A))"
    using env_rewards_bound[of "explore_start A" delta direction]
    by (simp add: explore_start_fields)
  assume "explore_loop delta direction (explore_start A) = Inr V'"
  from explore_loop_rewards[OF this]
  show c: "num_plays V' = length (env_rewards delta direction (explore_start A))"
    by (simp add: explore_start_fields)
  show "int (num_plays V') \<le> max 0 (episode_length (hp A))"
    using b c by simp
qed

theorem episode_length_is_env_limit_witness:
  "episode_length (hp (stub_agent (default_Hp\<lparr>episode_length := 1\<rparr>) 0 False (Some 2))) = 2 \<and>
   episode_length (hp (stub_agent (default_Hp\<lparr>episode_length := 1\<rparr>) 0 False (Some 0))) = 1 \<and>
   episode_length (hp (stub_agent (default_Hp\<lparr>episode_length := 1\<rparr>) 0 False None)) = 1 \<and>
   num_plays \<lparr> agent = (stub_agent default_Hp 5 True None)
          \<lparr>normalizer := \<lparr> n = [1], mean = [0], mean_diff = [0], variance = [1 / 100] \<rparr>\<rparr>,
        state = [0], is_done = True, num_plays = 1, sum_rewards = 1 \<rparr>
     = length (env_rewards None None (explore_start (stub_agent default_Hp 5 True None)))"
proof -
  let ?h = "default_Hp\<lparr>episode_length := 1\<rparr>"
  let ?A = "stub_agent default_Hp 5 True None"
  let ?A' = "?A\<lparr>normalizer := \<lparr> n = [1], mean = [0], mean_diff = [0], variance = [1 / 100] \<rparr>\<rparr>"
  let ?V' = "\<lparr> agent = ?A', state = [0], is_done = True, num_plays = 1, sum_rewards = 1 \<rparr>"
  have l: "explore_loop None None (explore_start ?A) = Inr ?V'"
    by (simp add: explore_loop.simps stub_defs)
  have i: "episode_length (hp (stub_agent ?h 0 False lim)) =
      (case lim of None \<Rightarrow> 1 | Some l \<Rightarrow> if l = 0 then 1 else l)" for lim
    using episode_length_is_env_limit[of ?h "stub_env 0 False lim" "()" None None None None
        None None ?A ?V', THEN conjunct1]
    by (simp add: stub_agent_def stub_env_def default_Hp_def split: option.splits)
  show ?thesis
    using episode_length_is_env_limit[of ?h "stub_env 0 False None" "()" None None None None
        None None ?A ?V'] l i[of "Some 2"] i[of "Some 0"] i[of None]
    by simp
qed

section \<open>The training iteration\<close>




lemma sorted_reverse_set: "set (sorted_reverse f xs) = set xs"
  by (simp add: sorted_reverse_def)



lemma slice_to_prefix: "\<exists>k. slice_to j xs = take k xs"
  by (auto simp: slice_to_def)


lemma order_prefix:
  "\<exists>k. order num_best pos_rewards neg_rewards =
     take k (sorted_reverse (\<lambda>x. scores pos_rewards neg_rewards ! x)
       [0..<length (scores pos_rewards neg_rewards)])"
  unfolding order_def by (rule slice_to_prefix)

lemma order_in_range:
  "set (order num_best pos_rewards neg_rewards) \<subseteq> {0..<length (scores pos_rewards neg_rewards)}"
proof -
  from order_prefix obtain k where
    "order num_best pos_rewards neg_rewards =
       take k (sorted_reverse (\<lambda>x. scores pos_rewards neg_rewards ! x)
         [0..<length (scores pos_rewards neg_rewards)])"
    by blast
  then have "set (order num_best pos_rewards neg_rewards)
      \<subseteq> set (sorted_reverse (\<lambda>x. scores pos_rewards neg_rewards ! x)
         [0..<length (scores pos_rewards neg_rewards)])"
    by (simp add: set_take_subset)
  then show ?thesis
    by (simp add: sorted_reverse_set)
qed



lemma explore_loop_frame:
  assumes "explore_loop delta direction V = Inr V'"
  shows "policy (agent V') = policy (agent V) \<and> hp (agent V') = hp (agent V)"
  using assms
proof (induction delta direction V rule: explore_loop.induct)
  case (1 delta direction V)
  show ?case
  proof (cases "running V")
    case False
    then show ?thesis
      using "1.prems" by (simp add: explore_loop_stop)
  next
    case True
    with "1.prems" obtain W where W: "explore_body delta direction V = Inr W"
      and rest: "explore_loop delta direction W = Inr V'"
      by (auto simp: explore_loop_go split: sum.splits)
    have c: "\<not> is_done V \<and> int (num_plays V) < episode_length (hp (agent V))"
      using True by (simp add: running_def)
    from "1.IH"[OF c W rest] explore_body_frame(2,3)[OF W]
    show ?thesis
      by simp
  qed
qed

lemma explore_frame:
  assumes "explore A direction delta = Inr (returned, A')"
  shows "policy A' = policy A \<and> hp A' = hp A"
proof -
  from assms obtain W where W: "explore_loop delta direction (explore_start A) = Inr W"
    and A': "A' = agent W"
    by (auto simp: explore_def and_then_eq_Inr)
  from explore_loop_frame[OF W] A' show ?thesis
    by (simp add: explore_start_fields)
qed

lemma run_deltas_frame:
  assumes "run_deltas A deltas ks = Inr (pos_rewards, neg_rewards, A')"
  shows "length pos_rewards = length ks \<and> length neg_rewards = length ks \<and>
     policy A' = policy A \<and> hp A' = hp A \<and> (\<forall>k\<in>set ks. k < length deltas)"
  using assms
proof (induction ks arbitrary: A pos_rewards neg_rewards)
  case Nil
  then show ?case by simp
next
  case (Cons k ks)
  from Cons.prems have k: "k < length deltas"
    by (auto split: if_splits)
  with Cons.prems obtain r_pos A1 r_neg A2 ps ns where
    e1: "explore A (Some Plus) (Some (deltas ! k)) = Inr (r_pos, A1)" and
    e2: "explore A1 (Some Minus) (Some (deltas ! k)) = Inr (r_neg, A2)" and
    rest: "run_deltas A2 deltas ks = Inr (ps, ns, A')" and
    res: "pos_rewards = r_pos # ps" "neg_rewards = r_neg # ns"
    by (auto simp: and_then_eq_Inr)
  from Cons.IH[OF rest] explore_frame[OF e1] explore_frame[OF e2] k res
  show ?case
    by simp
qed

lemma randn_like_shape: "map length (randn_like draw A) = map length A"
  by (rule nth_equalityI) (simp_all add: randn_like_def)

lemma sample_deltas_shape:
  assumes "k < length (sample_deltas P rnd)"
  shows "map length (sample_deltas P rnd ! k) = map length (theta P)"
  using assms by (simp add: sample_deltas_def randn_like_shape)

lemma update_zero_sigma:
  assumes "\<forall>(r_pos, r_neg, delta)\<in>set rollouts. map length delta = map length (theta P)"
  shows "update P rollouts 0 = Inl NonFinite"
proof -
  have "\<forall>(r_pos, r_neg, delta)\<in>set rollouts.
      map length delta = map length (zeros_like (theta P))"
    using assms by (simp add: zeros_like_shape)
  from accumulate_step_sum[OF this] obtain S where
    "accumulate_step (zeros_like (theta P)) rollouts = Inr S"
    by blast
  then show ?thesis
    by (simp add: update_def float_div_def)
qed

lemma degenerate_run_deltas:
  "run_deltas degenerate_agent (sample_deltas (policy degenerate_agent) (\<lambda>k i j. 1))
     [0..<nat (num_deltas (hp degenerate_agent))]
   = Inr ([0, 0], [0, 0],
       degenerate_agent
         \<lparr>normalizer := \<lparr> n = [4], mean = [0], mean_diff = [0], variance = [1 / 100] \<rparr>\<rparr>)"
proof -
  have up1: "[0..<Suc 0] = [0]"
    by simp
  have up2: "[0..<2] = [0, 1]"
    by (simp add: upt_rec)
  show ?thesis
    by (simp add: degenerate_agent_def sample_deltas_def randn_like_def up1 up2
        explore_def explore_loop.simps stub_defs)
qed

text \<open>
  Claim C1, which the code refutes: nothing in \<^verbatim>\<open>train\<close> or \<^verbatim>\<open>update\<close> looks at
  \<^verbatim>\<open>sigma_rewards\<close> before dividing by it. In the iteration of the degenerate run all
  four rewards are 0, \<^verbatim>\<open>sigma_rewards\<close> is 0, and the iteration does not end with the
  weights as they were: \<^verbatim>\<open>update\<close> divides by zero and the weights are no longer
  finite numbers.
\<close>

theorem zero_sigma_is_not_detected_counterexample:
  "Hp_init 1500 3000 2 1 100 ''BipedalWalker-v2'' 42 (3 / 100) (2 / 100)
     = Inr (default_Hp\<lparr>num_deltas := 2, num_best_deltas := 1\<rparr>) \<and>
   np_std ([0, 0] @ [0, 0]) = Inr 0 \<and>
   train_step degenerate_agent (\<lambda>k i j. 1) 0 = Inl NonFinite"
proof -
  have s: "np_std ([0, 0] @ [0, 0]) = Inr 0"
    by (simp add: np_std_def)
  have up1: "[0..<Suc 0] = [0]"
    by simp
  have u: "update (policy degenerate_agent)
      [(0, 0, sample_deltas (policy degenerate_agent) (\<lambda>k i j. 1) ! 0)] 0 = Inl NonFinite"
    by (simp add: update_def float_div_def zeros_like_def mat_add_def mat_scale_def
        degenerate_agent_def sample_deltas_def randn_like_def up1 stub_defs)
  have o: "order 1 [0, 0] [0, 0] = [0]"
    by (simp add: order_def scores_def slice_to_def sorted_reverse_def sort_key_def
        upt_rec)
  have h: "num_best_deltas (hp degenerate_agent) = 1"
    by (simp add: degenerate_agent_def stub_defs)
  have t: "train_step degenerate_agent (\<lambda>k i j. 1) 0 = Inl NonFinite"
    using degenerate_run_deltas s u o h
    by (simp add: train_step_def update_and_evaluate_def Let_def)
  show ?thesis
    using s t by (simp add: Hp_init_def default_Hp_def)
qed

text \<open>
  Claim C1 as amended. In every training iteration whose paired rollouts return and in
  which \<^verbatim>\<open>sigma_rewards\<close> is 0 (as it is when all \<open>2 * num_deltas\<close> rollout rewards are
  0), the case is not detected and the update is not skipped: the iteration goes on from
  \<^verbatim>\<open>sigma_rewards\<close> as for any other value, \<^verbatim>\<open>update\<close> divides by
  \<open>num_best_deltas * sigma_rewards = 0\<close>, and the iteration leaves non-finite weights
  instead of the weights it started from.
\<close>

theorem zero_sigma_is_not_detected:
  assumes "run_deltas A (sample_deltas (policy A) rnd) [0..<nat (num_deltas (hp A))]
      = Inr (pos_rewards, neg_rewards, A1)"
    and "sigma_rewards = 0"
  shows "train_step A rnd stp =
      and_then (np_std (pos_rewards @ neg_rewards))
        (\<lambda>sigma. update_and_evaluate A1 (sample_deltas (policy A) rnd)
           pos_rewards neg_rewards sigma stp) \<and>
    update_and_evaluate A1 (sample_deltas (policy A) rnd) pos_rewards neg_rewards
      sigma_rewards stp = Inl NonFinite"
proof -
  let ?deltas = "sample_deltas (policy A) rnd"
  let ?rollouts = "map (\<lambda>k. (pos_rewards ! k, neg_rewards ! k, ?deltas ! k))
      (order (num_best_deltas (hp A1)) pos_rewards neg_rewards)"
  from run_deltas_frame[OF assms(1)] have
    lens: "length pos_rewards = nat (num_deltas (hp A))"
      "length neg_rewards = nat (num_deltas (hp A))" and
    pol: "policy A1 = policy A" and
    inr: "\<forall>k<nat (num_deltas (hp A)). k < length ?deltas"
    by auto
  have shapes: "\<forall>(r_pos, r_neg, delta)\<in>set ?rollouts.
      map length delta = map length (theta (policy A1))"
  proof -
    have "map length (?deltas ! k) = map length (theta (policy A1))"
      if "k \<in> set (order (num_best_deltas (hp A1)) pos_rewards neg_rewards)" for k
    proof -
      have "k < length (scores pos_rewards neg_rewards)"
        using that order_in_range[of "num_best_deltas (hp A1)" pos_rewards neg_rewards]
        by auto
      then have "k < nat (num_deltas (hp A))"
        using lens by (simp add: scores_def)
      then have "k < length ?deltas"
        using inr by simp
      then show ?thesis
        using sample_deltas_shape[of k "policy A" rnd] pol by simp
    qed
    then show ?thesis
      by auto
  qed
  have link: "train_step A rnd stp =
      and_then (np_std (pos_rewards @ neg_rewards))
        (\<lambda>sigma. update_and_evaluate A1 ?deltas pos_rewards neg_rewards sigma stp)"
    using assms(1) by (simp add: train_step_def Let_def)
  have "update (policy A1) ?rollouts 0 = Inl NonFinite"
    using shapes by (rule update_zero_sigma)
  then have "update_and_evaluate A1 ?deltas pos_rewards neg_rewards sigma_rewards stp
      = Inl NonFinite"
    using assms(2) by (simp add: update_and_evaluate_def Let_def)
  with link show ?thesis
    by simp
qed

theorem zero_sigma_is_not_detected_witness:
  "update_and_evaluate
     (degenerate_agent
        \<lparr>normalizer := \<lparr> n = [4], mean = [0], mean_diff = [0], variance = [1 / 100] \<rparr>\<rparr>)
     (sample_deltas (policy degenerate_agent) (\<lambda>k i j. 1)) [0, 0] [0, 0] 0 7
     = Inl NonFinite \<and>
   train_step degenerate_agent (\<lambda>k i j. 1) 7 = Inl NonFinite"
proof -
  have s: "np_std ([0, 0] @ [0, 0]) = Inr 0"
    by (simp add: np_std_def)
  have z: "(0::real) = 0"
    by simp
  show ?thesis
    using zero_sigma_is_not_detected[OF degenerate_run_deltas z, of 7] s
    by simp
qed

end
